theory Spec2Isabelle
  imports Complex_Main "HOL-Library.Multiset" "HOL-Library.Option_ord"
    "HOL-Library.Char_ord" "HOL-Library.List_Lexorder"
begin

section \<open>Data frames, cells and rows\<close>

text \<open>
  A pandas object column holds strings and the two missing markers: \<open>NaN\<close> (what
  \<open>read_csv\<close> and \<open>json_normalize\<close> put for an empty or absent field) and \<open>NA\<close>
  (\<open>pd.NA\<close>, what \<open>df.replace({"": pd.NA})\<close> and a filled-in column put). A number
  read into an object column is represented by its text. A data frame is the list of
  its rows in index order. A numeric column holds \<open>float64\<close> values: a finite number,
  an infinity or NaN; rounding plays no part in what follows, so the finite values are
  the reals.
  A calendar date is its day ordinal: the ISO text \<open>YYYY-MM-DD\<close> that \<open>strftime\<close>
  writes and the timestamp \<open>pd.to_datetime\<close> reads back are ordered alike, so the
  string maximum and the timestamp comparison of the loader are both taken on it.
\<close>

datatype cell = NaN | NA | Text string

datatype float64 = FNaN | NInf | Fin real | PInf

type_synonym date = int

fun notna :: "cell \<Rightarrow> bool" where
  "notna (Text s) = True"
| "notna NaN = False"
| "notna NA = False"

fun isna :: "cell \<Rightarrow> bool" where
  "isna (Text s) = False"
| "isna NaN = True"
| "isna NA = True"

text \<open>Comparison of a float column with a finite bound; NaN compares false.\<close>

fun float_lt :: "float64 \<Rightarrow> real \<Rightarrow> bool" where
  "float_lt FNaN b = False"
| "float_lt NInf b = True"
| "float_lt (Fin x) b = (x < b)"
| "float_lt PInf b = False"

fun float_gt :: "float64 \<Rightarrow> real \<Rightarrow> bool" where
  "float_gt FNaN b = False"
| "float_gt NInf b = False"
| "float_gt (Fin x) b = (x > b)"
| "float_gt PInf b = True"

text \<open>
  \<open>Series.astype(str)\<close> on an object column writes the missing markers out as text.
  A string is the list of its code points, each below 256 (the Latin-1 range); text with
  other characters is outside the model. \<open>str.strip()\<close> removes at both ends the
  characters for which Python's \<open>str.isspace\<close> holds: in this range the twelve below,
  U+0085 and the no-break space U+00A0 among them.
\<close>

fun astype_str :: "cell \<Rightarrow> string" where
  "astype_str NaN = ''nan''"
| "astype_str NA = ''<NA>''"
| "astype_str (Text s) = s"

definition isspace :: "char \<Rightarrow> bool" where
  "isspace c \<longleftrightarrow> c \<in> set [CHR 0x20, CHR 0x09, CHR 0x0A, CHR 0x0B, CHR 0x0C, CHR 0x0D,
     CHR 0x1C, CHR 0x1D, CHR 0x1E, CHR 0x1F, CHR 0x85, CHR 0xA0]"

definition strip :: "string \<Rightarrow> string" where
  "strip s = rev (dropWhile isspace (rev (dropWhile isspace s)))"

record product =
  product_id :: cell
  product_name :: cell
  category :: cell
  price :: float64

record customer =
  customer_id :: cell
  name :: cell
  email :: cell
  country :: cell

record sale =
  transaction_id :: cell
  product_id :: cell
  customer_id :: cell
  quantity :: float64
  transaction_date :: date

record rejected_sale = sale +
  reject_reason :: string

section \<open>Referential validation (ex5.py, validate_referential_integrity)\<close>

definition prod_ok :: "product list \<Rightarrow> sale \<Rightarrow> bool" where
  "prod_ok products_df s \<longleftrightarrow> sale.product_id s \<in> set (map product.product_id products_df)"

definition cust_ok :: "customer list \<Rightarrow> sale \<Rightarrow> bool" where
  "cust_ok customers_df s \<longleftrightarrow> sale.customer_id s \<in> set (map customer.customer_id customers_df)"

definition referential_ok :: "product list \<Rightarrow> customer list \<Rightarrow> sale \<Rightarrow> bool" where
  "referential_ok products_df customers_df s \<longleftrightarrow>
     prod_ok products_df s \<and> cust_ok customers_df s"

definition reason_of :: "product list \<Rightarrow> customer list \<Rightarrow> sale \<Rightarrow> string" where
  "reason_of products_df customers_df s =
     (if \<not> prod_ok products_df s then ''INVALID_PRODUCT_ID;'' else '''') @
     (if \<not> cust_ok customers_df s then ''INVALID_CUSTOMER_ID;'' else '''')"

definition reject :: "product list \<Rightarrow> customer list \<Rightarrow> sale \<Rightarrow> rejected_sale" where
  "reject products_df customers_df s =
     sale.extend s (rejected_sale.fields (reason_of products_df customers_df s))"

definition validate_referential_integrity ::
  "sale list \<Rightarrow> product list \<Rightarrow> customer list \<Rightarrow> sale list \<times> rejected_sale list" where
  "validate_referential_integrity sales_df products_df customers_df =
     (let rejected_df = filter (\<lambda>s. \<not> referential_ok products_df customers_df s) sales_df;
          valid_df = filter (referential_ok products_df customers_df) sales_df
      in (valid_df, map (reject products_df customers_df) rejected_df))"

section \<open>Duplicate resolution (ex5.py and ex3.py, choose_best_record; ex6.py, clean_customers)\<close>

text \<open>
  \<open>scores = group[["name", "email", "country"]].notna().sum(axis=1)\<close>: the number of
  non-null cells among the three columns.
\<close>

definition score :: "customer \<Rightarrow> nat" where
  "score r = (if notna (name r) then 1 else 0) + (if notna (email r) then 1 else 0)
     + (if notna (country r) then 1 else 0)"

text \<open>
  \<open>Series.idxmax\<close>: the label of the first occurrence of the maximum; it raises on an
  empty series (\<open>None\<close>). The rows of a group keep the unique labels \<open>read_csv\<close> gave
  them, so a label is a position in the group.
\<close>

definition idxmax :: "nat list \<Rightarrow> nat option" where
  "idxmax scores = (if scores = [] then None
     else Some (length (takeWhile (\<lambda>s. s \<noteq> Max (set scores)) scores)))"

definition choose_best_record :: "customer list \<Rightarrow> customer option" where
  "choose_best_record grp =
     (case idxmax (map score grp) of
        None \<Rightarrow> None
      | Some best_idx \<Rightarrow> Some (grp ! best_idx))"

text \<open>
  \<open>df.groupby("customer_id")\<close>: one group per non-null key, the groups in ascending
  key order, each group holding its rows in input order.
\<close>

definition group_keys :: "customer list \<Rightarrow> string list" where
  "group_keys df =
     sort (remdups (concat (map (\<lambda>r. case customer.customer_id r of Text k \<Rightarrow> [k] | _ \<Rightarrow> []) df)))"

definition customers_dedup :: "customer list \<Rightarrow> customer list" where
  "customers_dedup df =
     List.map_filter
       (\<lambda>k. choose_best_record (filter (\<lambda>r. customer.customer_id r = Text k) df))
       (group_keys df)"

text \<open>
  ex6.py: \<open>df.sort_index().drop_duplicates(subset=["customer_id"], keep="first")\<close>. The
  index is already ascending; a row is kept when its key has not been seen before.
\<close>

fun drop_duplicates_first :: "cell list \<Rightarrow> customer list \<Rightarrow> customer list" where
  "drop_duplicates_first seen [] = []"
| "drop_duplicates_first seen (r # rs) =
     (if customer.customer_id r \<in> set seen then drop_duplicates_first seen rs
      else r # drop_duplicates_first (customer.customer_id r # seen) rs)"

definition customers_keep_first :: "customer list \<Rightarrow> customer list" where
  "customers_keep_first df = drop_duplicates_first [] df"

text \<open>
  The condition under which the two policies agree: every row scores no more than the
  first row of the batch that carries its key.
\<close>

definition first_is_best :: "customer list \<Rightarrow> bool" where
  "first_is_best df =
     list_all (\<lambda>r. case find (\<lambda>x. customer.customer_id x = customer.customer_id r) df of
                      None \<Rightarrow> True
                    | Some f \<Rightarrow> score r \<le> score f) df"

definition all_keys_text :: "customer list \<Rightarrow> bool" where
  "all_keys_text df = list_all (\<lambda>r. notna (customer.customer_id r)) df"

text \<open>Three rows for customer C2 (the second and third tie on two fields) and one for C1.\<close>

definition dup_batch :: "customer list" where
  "dup_batch =
     [\<lparr>customer.customer_id = Text ''C2'', name = Text ''Ann'', email = NA, country = NA\<rparr>,
      \<lparr>customer.customer_id = Text ''C2'', name = Text ''Ann B'', email = Text ''a@b.co'',
         country = NA\<rparr>,
      \<lparr>customer.customer_id = Text ''C2'', name = Text ''Ann C'', email = NA,
         country = Text ''RO''\<rparr>,
      \<lparr>customer.customer_id = Text ''C1'', name = Text ''Bob'', email = NA,
         country = Text ''RO''\<rparr>]"

text \<open>The same customers with the most complete row of each first.\<close>

definition agree_batch :: "customer list" where
  "agree_batch =
     [\<lparr>customer.customer_id = Text ''C2'', name = Text ''Ann B'', email = Text ''a@b.co'',
         country = NA\<rparr>,
      \<lparr>customer.customer_id = Text ''C2'', name = Text ''Ann'', email = NA, country = NA\<rparr>,
      \<lparr>customer.customer_id = Text ''C1'', name = Text ''Bob'', email = NA,
         country = Text ''RO''\<rparr>]"

section \<open>Watermark store and incremental loader (ex3.py)\<close>

text \<open>
  The row of table \<open>ex_3_etl_state\<close> for the one pipeline name \<open>'ex_3_sales'\<close>; the
  column \<open>last_processed_date\<close> is nullable. The database is that row, if it exists,
  and the rows of the sink table \<open>ex_3_sales\<close> (no rows while the table does not exist).
\<close>

record etl_state_row =
  last_processed_date :: "date option"
  last_run_ts :: nat
  last_run_rows :: nat

record database =
  ex_3_etl_state :: "etl_state_row option"
  ex_3_sales :: "sale list"

definition get_last_watermark :: "database \<Rightarrow> date option" where
  "get_last_watermark db =
     (case ex_3_etl_state db of
        None \<Rightarrow> None
      | Some row \<Rightarrow> last_processed_date row)"

text \<open>
  \<open>INSERT ... ON DUPLICATE KEY UPDATE\<close>: the row is written whether or not it exists.
  The time stamp \<open>datetime.now()\<close> is an input of the run.
\<close>

definition update_state :: "date option \<Rightarrow> nat \<Rightarrow> nat \<Rightarrow> database \<Rightarrow> database" where
  "update_state new_watermark rows_processed now db =
     db\<lparr>ex_3_etl_state :=
          Some \<lparr>last_processed_date = new_watermark, last_run_ts = now,
                last_run_rows = rows_processed\<rparr>\<rparr>"

text \<open>
  The batch to load: all rows in full mode, the rows dated after the watermark in
  incremental mode, then \<open>sort_values("transaction_date_dt")\<close>. pandas sorts with its
  default quicksort, which does not promise the order of rows with equal dates; the
  model takes the stable order as one of the orders it can give. What is proved below of
  the batch and of the sink holds of every date-sorted arrangement of the same rows: it
  is stated of the rows of the batch, their multiplicities and the ascending dates, never
  of the place of a row among rows of its date.
\<close>

definition incremental_batch :: "date option \<Rightarrow> sale list \<Rightarrow> sale list" where
  "incremental_batch last_wm sales_clean =
     sort_key sale.transaction_date
       (case last_wm of
          None \<Rightarrow> sales_clean
        | Some wm \<Rightarrow> filter (\<lambda>s. sale.transaction_date s > wm) sales_clean)"

text \<open>
  The transaction on the sink: \<open>DELETE s FROM ex_3_sales s JOIN ex_3_sales_stage st ON
  s.transaction_id = st.transaction_id\<close> (a null id joins with nothing), then
  \<open>INSERT ... SELECT\<close> of the staged rows. Two ids join when they are the same string:
  the comparison of a binary collation, the ids the pipeline writes (\<open>T\<close> and six
  digits) being told apart by every collation.
\<close>

definition upsert_stage :: "sale list \<Rightarrow> sale list \<Rightarrow> sale list" where
  "upsert_stage stage sink =
     filter (\<lambda>s. sale.transaction_id s \<notin> set (filter notna (map sale.transaction_id stage))) sink
       @ stage"

definition load_incremental_sales :: "sale list \<Rightarrow> nat \<Rightarrow> database \<Rightarrow> database" where
  "load_incremental_sales sales_clean now db =
     (let last_wm = get_last_watermark db;
          inc_df = incremental_batch last_wm sales_clean;
          rows_to_load = length inc_df
      in if rows_to_load = 0 then update_state last_wm 0 now db
         else
           let db' = db\<lparr>ex_3_sales := upsert_stage inc_df (ex_3_sales db)\<rparr>;
               new_wm = Max (set (map sale.transaction_date inc_df))
           in update_state (Some new_wm) rows_to_load now db')"

text \<open>A sequence of runs, each with its cleaned batch and its clock reading.\<close>

fun run_pipeline :: "(sale list \<times> nat) list \<Rightarrow> database \<Rightarrow> database" where
  "run_pipeline [] db = db"
| "run_pipeline ((sales_clean, now) # runs) db =
     run_pipeline runs (load_incremental_sales sales_clean now db)"

definition empty_db :: database where
  "empty_db = \<lparr>ex_3_etl_state = None, ex_3_sales = []\<rparr>"

definition mk_sale :: "string \<Rightarrow> date \<Rightarrow> sale" where
  "mk_sale tid d =
     \<lparr>sale.transaction_id = Text tid, product_id = Text ''P0001'', customer_id = Text ''C0001'',
      quantity = Fin 1, sale.transaction_date = d\<rparr>"

text \<open>Two batches of a source that grows: the second holds the first and two later rows.\<close>

definition first_batch :: "sale list" where
  "first_batch = [mk_sale ''T000002'' 20, mk_sale ''T000001'' 10]"

definition second_batch :: "sale list" where
  "second_batch = first_batch @ [mk_sale ''T000004'' 22, mk_sale ''T000003'' 21]"

text \<open>A later batch that corrects a loaded transaction and brings a new one.\<close>

definition replay_batch :: "sale list" where
  "replay_batch = [mk_sale ''T000005'' 25, mk_sale ''T000002'' 23]"

section \<open>Resilient fetcher (ex6.py, fetch_all_product_metadata)\<close>

definition MAX_RETRIES :: nat where
  "MAX_RETRIES = 3"

definition BACKOFF_FACTOR :: nat where
  "BACKOFF_FACTOR = 2"

text \<open>
  The response array holds objects of the shape the docstring gives: the three text
  fields are strings, \<open>null\<close> or absent; the rating is any JSON scalar. \<open>json.loads\<close>
  reads a number with a fraction or an exponent as a float64 (\<open>1e400\<close> as \<open>Infinity\<close>;
  the literals \<open>Infinity\<close> and \<open>NaN\<close> are read too) and a whole number as a Python
  integer of any size.
\<close>

datatype json_text = Absent | Null | JStr string

datatype json_number = NoNumber | NullNumber | NumStr string | NumFloat float64 | NumInt int

record json_metadata =
  product_id :: json_text
  description :: json_text
  rating :: json_number
  availability_status :: json_text

record metadata =
  product_id :: cell
  description :: cell
  rating :: float64
  availability_status :: cell

text \<open>
  What one \<open>requests.get\<close> gives: \<open>requests.Timeout\<close>, another \<open>RequestException\<close>, or a
  response with its status code and what \<open>resp.json()\<close> makes of the body: a
  \<open>ValueError\<close> (no JSON), a \<open>RecursionError\<close> (JSON nested too deep for the decoder),
  a value that is no list, or the array.
\<close>

datatype json_body = Unparseable | TooDeep | NotArray | Array "json_metadata list"

datatype response = Timeout | RequestException | Http nat json_body

text \<open>
  The exceptions the function does not catch, and what a run ends with: the frame it
  returns (\<open>pd.DataFrame()\<close> is the empty frame) or the exception it lets through.
\<close>

datatype py_error = RecursionError | OverflowError

datatype fetch_outcome = Frame "metadata list" | Raises py_error

text \<open>
  The text conversion of pandas that the normalisation calls is a parameter:
  \<open>parse_float\<close> is \<open>pd.to_numeric(..., errors="coerce")\<close> on a string (NaN when it is no
  number).
\<close>

record pandas =
  parse_float :: "string \<Rightarrow> float64"

text \<open>
  pandas converts an integer cell of the rating column to a float64, and the conversion
  of a Python integer raises \<open>OverflowError\<close> from the first integer on that rounds to
  \<open>2 ^ 1024\<close>; neither \<open>json_normalize\<close> nor \<open>to_numeric\<close> catches it.
\<close>

definition int_overflows :: "int \<Rightarrow> bool" where
  "int_overflows n \<longleftrightarrow> \<bar>n\<bar> \<ge> 2 ^ 1024 - 2 ^ 970"

fun rating_overflows :: "json_number \<Rightarrow> bool" where
  "rating_overflows (NumInt n) = int_overflows n"
| "rating_overflows NoNumber = False"
| "rating_overflows NullNumber = False"
| "rating_overflows (NumStr s) = False"
| "rating_overflows (NumFloat x) = False"

text \<open>
  A column that no object of the array has is filled with \<open>pd.NA\<close>; a field absent from
  one object only is NaN after \<open>json_normalize\<close>.
\<close>

definition col_missing :: "(json_metadata \<Rightarrow> json_text) \<Rightarrow> json_metadata list \<Rightarrow> bool" where
  "col_missing col data = list_all (\<lambda>r. col r = Absent) data"

fun json_astype_str :: "bool \<Rightarrow> json_text \<Rightarrow> string" where
  "json_astype_str missing Absent = (if missing then ''<NA>'' else ''nan'')"
| "json_astype_str missing Null = ''None''"
| "json_astype_str missing (JStr s) = s"

fun json_astype_string :: "json_text \<Rightarrow> cell" where
  "json_astype_string Absent = NA"
| "json_astype_string Null = NA"
| "json_astype_string (JStr s) = Text s"

fun json_to_numeric :: "pandas \<Rightarrow> json_number \<Rightarrow> float64" where
  "json_to_numeric pd NoNumber = FNaN"
| "json_to_numeric pd NullNumber = FNaN"
| "json_to_numeric pd (NumStr s) = parse_float pd s"
| "json_to_numeric pd (NumFloat x) = x"
| "json_to_numeric pd (NumInt n) = Fin (real_of_int n)"

definition convert_columns :: "pandas \<Rightarrow> json_metadata list \<Rightarrow> metadata list" where
  "convert_columns pd data =
     map (\<lambda>r. \<lparr>metadata.product_id =
                  Text (strip (json_astype_str (col_missing json_metadata.product_id data)
                    (json_metadata.product_id r))),
               description = json_astype_string (json_metadata.description r),
               rating = json_to_numeric pd (json_metadata.rating r),
               availability_status =
                 json_astype_string (json_metadata.availability_status r)\<rparr>) data"


text \<open>\<open>Series.clip(0, 5)\<close>: NaN stays, everything else is brought into the interval.\<close>

fun clip_0_5 :: "float64 \<Rightarrow> float64" where
  "clip_0_5 FNaN = FNaN"
| "clip_0_5 NInf = Fin 0"
| "clip_0_5 (Fin x) = Fin (min (max x 0) 5)"
| "clip_0_5 PInf = Fin 5"

definition out_of_bounds :: "metadata \<Rightarrow> bool" where
  "out_of_bounds r \<longleftrightarrow> float_lt (metadata.rating r) 0 \<or> float_gt (metadata.rating r) 5"

definition clamp_ratings :: "metadata list \<Rightarrow> metadata list" where
  "clamp_ratings api_df =
     (if list_ex out_of_bounds api_df
      then map (\<lambda>r. if out_of_bounds r \<and> metadata.rating r \<noteq> FNaN
                     then r\<lparr>metadata.rating := clip_0_5 (metadata.rating r)\<rparr> else r) api_df
      else api_df)"

text \<open>\<open>drop_duplicates(subset=["product_id"], keep="last")\<close>.\<close>

fun drop_duplicates_last :: "metadata list \<Rightarrow> metadata list" where
  "drop_duplicates_last [] = []"
| "drop_duplicates_last (r # rs) =
     (if metadata.product_id r \<in> set (map metadata.product_id rs) then drop_duplicates_last rs
      else r # drop_duplicates_last rs)"

definition normalize_metadata :: "pandas \<Rightarrow> json_metadata list \<Rightarrow> metadata list" where
  "normalize_metadata pd data = drop_duplicates_last (clamp_ratings (convert_columns pd data))"

text \<open>
  Lines 116 to 145 on the array: the exception of the integer conversion, or the frame.
\<close>

definition normalize_array :: "pandas \<Rightarrow> json_metadata list \<Rightarrow> fetch_outcome" where
  "normalize_array pd data =
     (if list_ex (\<lambda>r. rating_overflows (json_metadata.rating r)) data then Raises OverflowError
      else Frame (normalize_metadata pd data))"

text \<open>
  The retry loop. The network is the sequence of results of the successive requests; the
  run ends with its outcome, the number of requests it made and the waits it slept, in
  order, in seconds.
\<close>

record fetch_result =
  outcome :: fetch_outcome
  requests :: nat
  sleeps :: "nat list"

function fetch_loop ::
  "pandas \<Rightarrow> (nat \<Rightarrow> response) \<Rightarrow> nat \<Rightarrow> nat \<Rightarrow> nat list \<Rightarrow> fetch_result" where
  "fetch_loop pd net attempt reqs slept =
     (if attempt < MAX_RETRIES then
        (case net reqs of
           Timeout \<Rightarrow>
             fetch_loop pd net (attempt + 1) (reqs + 1)
               (slept @ [BACKOFF_FACTOR ^ (attempt + 1)])
         | RequestException \<Rightarrow> \<lparr>outcome = Frame [], requests = reqs + 1, sleeps = slept\<rparr>
         | Http status_code body \<Rightarrow>
             if status_code \<noteq> 200 then
               (if attempt + 1 \<ge> MAX_RETRIES
                then \<lparr>outcome = Frame [], requests = reqs + 1, sleeps = slept\<rparr>
                else fetch_loop pd net (attempt + 1) (reqs + 1)
                       (slept @ [BACKOFF_FACTOR ^ (attempt + 1)]))
             else
               (case body of
                  Unparseable \<Rightarrow> \<lparr>outcome = Frame [], requests = reqs + 1, sleeps = slept\<rparr>
                | TooDeep \<Rightarrow>
                    \<lparr>outcome = Raises RecursionError, requests = reqs + 1, sleeps = slept\<rparr>
                | NotArray \<Rightarrow> \<lparr>outcome = Frame [], requests = reqs + 1, sleeps = slept\<rparr>
                | Array data \<Rightarrow>
                    \<lparr>outcome = normalize_array pd data, requests = reqs + 1,
                     sleeps = slept\<rparr>))
      else \<lparr>outcome = Frame [], requests = reqs, sleeps = slept\<rparr>)"
  by pat_completeness auto
termination
  by (relation "measure (\<lambda>(pd, net, attempt, reqs, slept). MAX_RETRIES - attempt)") auto

declare fetch_loop.simps [simp del]

definition fetch_all_product_metadata :: "pandas \<Rightarrow> (nat \<Rightarrow> response) \<Rightarrow> fetch_result" where
  "fetch_all_product_metadata pd net = fetch_loop pd net 0 0 []"









section \<open>Enricher (ex6.py, enrich_products_with_api)\<close>

record enriched_product = product +
  description :: cell
  rating :: float64
  availability_status :: cell

definition add_columns :: "product \<Rightarrow> cell \<Rightarrow> float64 \<Rightarrow> cell \<Rightarrow> enriched_product" where
  "add_columns p d r a = product.extend p (enriched_product.fields d r a)"

text \<open>
  \<open>products_df.merge(api_df, on="product_id", how="left")\<close>: the products in order, each
  once per metadata row with its key, or once with null metadata when there is none.
\<close>

definition merge_left :: "product list \<Rightarrow> metadata list \<Rightarrow> enriched_product list" where
  "merge_left products_df api_df =
     concat (map (\<lambda>p.
       let matches = filter (\<lambda>m. metadata.product_id m = product.product_id p) api_df
       in if matches = [] then [add_columns p NA FNaN NA]
          else map (\<lambda>m. add_columns p (metadata.description m) (metadata.rating m)
                          (metadata.availability_status m)) matches) products_df)"

definition fill_defaults :: "enriched_product \<Rightarrow> enriched_product" where
  "fill_defaults e =
     e\<lparr>enriched_product.description :=
         (if notna (enriched_product.description e) then enriched_product.description e
          else Text ''No description available.''),
       enriched_product.availability_status :=
         (if notna (enriched_product.availability_status e)
          then enriched_product.availability_status e else Text ''Unknown'')\<rparr>"

definition enrich_products_with_api ::
  "product list \<Rightarrow> metadata list \<Rightarrow> enriched_product list" where
  "enrich_products_with_api products_df api_df =
     (if api_df = [] then map (\<lambda>p. add_columns p NA FNaN NA) products_df
      else map fill_defaults (merge_left products_df api_df))"

text \<open>The defaults the specification names for a product without metadata.\<close>

definition has_defaults :: "enriched_product \<Rightarrow> bool" where
  "has_defaults e \<longleftrightarrow>
     enriched_product.description e = Text ''No description available.'' \<and>
     enriched_product.availability_status e = Text ''Unknown'' \<and>
     enriched_product.rating e = FNaN"

definition all_null :: "enriched_product \<Rightarrow> bool" where
  "all_null e \<longleftrightarrow>
     enriched_product.description e = NA \<and> enriched_product.availability_status e = NA \<and>
     enriched_product.rating e = FNaN"

definition yoga_mat :: product where
  "yoga_mat = \<lparr>product.product_id = Text ''P0003'', product_name = Text ''Yoga Mat'',
     category = Text ''Sports'', price = Fin 20\<rparr>"

definition other_metadata :: "metadata list" where
  "other_metadata =
     [\<lparr>metadata.product_id = Text ''P0001'', description = Text ''new'', rating = Fin 4,
       availability_status = Text ''In Stock''\<rparr>]"

section \<open>Required-field checks of the normalizer (ex5.py)\<close>

text \<open>Rows as \<open>read_csv\<close> delivers them: every column an object cell.\<close>

record raw_product =
  product_id :: cell
  product_name :: cell
  category :: cell
  price :: cell

record raw_sale =
  transaction_id :: cell
  product_id :: cell
  customer_id :: cell
  quantity :: cell
  transaction_date :: cell

definition CANONICAL_CATEGORIES :: "(string \<times> string) list" where
  "CANONICAL_CATEGORIES =
     [(''electronics'', ''Electronics''), (''clothing'', ''Clothing''), (''books'', ''Books''),
      (''home'', ''Home''), (''sports'', ''Sports'')]"

text \<open>
  \<open>str.lower()\<close> on the code points below 256: the letters A to Z and the accented
  capitals U+00C0 to U+00DE, the multiplication sign U+00D7 apart, move up by 32.
\<close>

definition lower_char :: "char \<Rightarrow> char" where
  "lower_char c =
     (if (CHR ''A'' \<le> c \<and> c \<le> CHR ''Z'') \<or>
         (CHR 0xC0 \<le> c \<and> c \<le> CHR 0xDE \<and> c \<noteq> CHR 0xD7)
      then char_of (of_char c + (32 :: nat)) else c)"

definition lower :: "string \<Rightarrow> string" where
  "lower s = map lower_char s"

definition canonical_category :: "cell \<Rightarrow> cell" where
  "canonical_category c =
     (case map_of CANONICAL_CATEGORIES (lower (strip (astype_str c))) of
        None \<Rightarrow> Text ''Unknown''
      | Some label \<Rightarrow> Text label)"

text \<open>\<open>pd.to_numeric(df["price"], errors="coerce")\<close> on an object cell.\<close>

fun to_numeric :: "pandas \<Rightarrow> cell \<Rightarrow> float64" where
  "to_numeric pd NaN = FNaN"
| "to_numeric pd NA = FNaN"
| "to_numeric pd (Text s) = parse_float pd s"

text \<open>
  clean_products, lines 66 to 76: both key columns go through \<open>astype(str).str.strip()\<close>
  and the mask tests them against the empty string.
\<close>

definition products_crit_missing_mask :: "raw_product \<Rightarrow> bool" where
  "products_crit_missing_mask r \<longleftrightarrow>
     strip (astype_str (raw_product.product_id r)) = '''' \<or>
     strip (astype_str (raw_product.product_name r)) = ''''"

definition clean_products :: "pandas \<Rightarrow> raw_product list \<Rightarrow> product list" where
  "clean_products pd df =
     map (\<lambda>r.
         let p = to_numeric pd (raw_product.price r)
         in \<lparr>product.product_id = Text (strip (astype_str (raw_product.product_id r))),
             product_name = Text (strip (astype_str (raw_product.product_name r))),
             category = canonical_category (raw_product.category r),
             price = (if float_lt p 0 then FNaN else p)\<rparr>)
       (filter (\<lambda>r. \<not> products_crit_missing_mask r) df)"

text \<open>\<open>df.replace({"": pd.NA})\<close> on one cell.\<close>

fun replace_empty :: "cell \<Rightarrow> cell" where
  "replace_empty (Text s) = (if s = '''' then NA else Text s)"
| "replace_empty NaN = NaN"
| "replace_empty NA = NA"

text \<open>
  clean_customers, lines 110 to 115: the \<open>isna()\<close> test comes after \<open>astype(str)\<close>, when
  the column holds strings only.
\<close>

definition customers_crit_missing_mask :: "customer \<Rightarrow> bool" where
  "customers_crit_missing_mask r \<longleftrightarrow>
     (let customer_id = Text (strip (astype_str (replace_empty (customer.customer_id r))));
          name = Text (strip (astype_str (replace_empty (customer.name r))))
      in isna customer_id \<or> customer_id = Text '''' \<or> name = Text '''')"

text \<open>clean_sales, lines 163 to 175; the date column is tested as it was read.\<close>

definition sales_crit_missing_mask :: "raw_sale \<Rightarrow> bool" where
  "sales_crit_missing_mask r \<longleftrightarrow>
     (let transaction_id = Text (strip (astype_str (replace_empty (raw_sale.transaction_id r))));
          product_id = Text (strip (astype_str (replace_empty (raw_sale.product_id r))));
          customer_id = Text (strip (astype_str (replace_empty (raw_sale.customer_id r))))
      in transaction_id = Text '''' \<or>
         isna product_id \<or> product_id = Text '''' \<or>
         isna customer_id \<or> customer_id = Text '''' \<or>
         isna (replace_empty (raw_sale.transaction_date r)))"

text \<open>
  Rows with an empty field in the source file, which \<open>read_csv\<close> reads as NaN: a product
  without a name and a sale without a product id (the data generator of the repository
  writes both kinds), and a customer without an id.
\<close>

definition nameless_product :: raw_product where
  "nameless_product = \<lparr>raw_product.product_id = Text ''P0007'', product_name = NaN,
     category = Text ''BOOKS'', price = NaN\<rparr>"

definition keyless_customer :: customer where
  "keyless_customer = \<lparr>customer.customer_id = NaN, name = Text ''Ann'',
     email = Text ''a@b.co'', country = NaN\<rparr>"

definition orphan_sale :: raw_sale where
  "orphan_sale = \<lparr>raw_sale.transaction_id = Text ''T000009'', product_id = NaN,
     customer_id = Text ''C0001'', quantity = Text ''2'', transaction_date = Text ''2025-03-10''\<rparr>"

definition dateless_sale :: raw_sale where
  "dateless_sale = \<lparr>raw_sale.transaction_id = Text ''T000010'', product_id = Text ''P0001'',
     customer_id = Text ''C0001'', quantity = Text ''2'', transaction_date = NaN\<rparr>"

section \<open>Properties of the referential validator\<close>

lemma truncate_reject: "sale.truncate (reject ps cs s) = s"
  by (simp add: reject_def sale.extend_def sale.truncate_def rejected_sale.fields_def)

lemma map_truncate_reject: "map sale.truncate (map (reject ps cs) xs) = xs"
  by (induction xs) (simp_all add: truncate_reject)

text \<open>
  C1. The validator partitions the cleaned sales batch. The rejected rows, with their
  reason column taken away, and the valid rows together are the input rows with their
  multiplicities; the row counts add up; no row is in both outputs, and every input row
  is in exactly one of them.
\<close>

theorem validate_partition:
  "(case validate_referential_integrity sales_df products_df customers_df of
      (valid_df, rejected_df) \<Rightarrow>
        length valid_df + length rejected_df = length sales_df \<and>
        mset valid_df + mset (map sale.truncate rejected_df) = mset sales_df \<and>
        set valid_df \<inter> set (map sale.truncate rejected_df) = {} \<and>
        list_all (\<lambda>s. (s \<in> set valid_df) \<noteq> (s \<in> set (map sale.truncate rejected_df)))
          sales_df)"
proof -
  let ?ok = "referential_ok products_df customers_df"
  have len: "length (filter ?ok sales_df) + length (filter (\<lambda>s. \<not> ?ok s) sales_df)
      = length sales_df"
    by (rule sum_length_filter_compl)
  have ms: "mset (filter ?ok sales_df) + mset (filter (\<lambda>s. \<not> ?ok s) sales_df)
      = mset sales_df"
    by simp
  have dj: "set (filter ?ok sales_df) \<inter> set (filter (\<lambda>s. \<not> ?ok s) sales_df) = {}"
    by auto
  have ex: "list_all (\<lambda>s. (s \<in> set (filter ?ok sales_df)) \<noteq>
      (s \<in> set (filter (\<lambda>s. \<not> ?ok s) sales_df))) sales_df"
    by (auto simp: list_all_iff)
  show ?thesis
    unfolding validate_referential_integrity_def Let_def prod.case map_truncate_reject
      length_map
    using len ms dj ex by blast
qed

section \<open>Properties of duplicate resolution\<close>

lemma idxmax_Some:
  assumes "scores \<noteq> []"
  shows "\<exists>m. idxmax scores = Some m \<and> m < length scores \<and>
    (\<forall>j<length scores. scores ! j \<le> scores ! m) \<and> (\<forall>j<m. scores ! j < scores ! m)"
proof -
  let ?M = "Max (set scores)"
  let ?m = "length (takeWhile (\<lambda>s. s \<noteq> ?M) scores)"
  have fin: "finite (set scores)" and ne: "set scores \<noteq> {}" using assms by auto
  have Min: "?M \<in> set scores" using Max_in [OF fin ne] .
  have lt: "?m < length scores"
  proof (rule ccontr)
    assume "\<not> ?m < length scores"
    then have "?m = length scores" using length_takeWhile_le [of _ scores] by (simp add: le_antisym)
    then have "takeWhile (\<lambda>s. s \<noteq> ?M) scores = scores"
      by (metis takeWhile_eq_take take_all order_refl)
    then have "\<forall>s\<in>set scores. s \<noteq> ?M" by (metis set_takeWhileD)
    with Min show False by blast
  qed
  have at: "scores ! ?m = ?M" using nth_length_takeWhile [OF lt] by simp
  have le: "\<forall>j<length scores. scores ! j \<le> scores ! ?m"
    using at fin by (simp add: Max_ge)
  have before: "\<forall>j<?m. scores ! j < scores ! ?m"
  proof (intro allI impI)
    fix j assume j: "j < ?m"
    then have "takeWhile (\<lambda>s. s \<noteq> ?M) scores ! j = scores ! j" by (rule takeWhile_nth)
    moreover have "takeWhile (\<lambda>s. s \<noteq> ?M) scores ! j \<in> set (takeWhile (\<lambda>s. s \<noteq> ?M) scores)"
      using j by (rule nth_mem)
    ultimately have "scores ! j \<noteq> ?M" by (metis set_takeWhileD)
    moreover have "scores ! j \<le> ?M" using j lt fin by (simp add: Max_ge)
    ultimately show "scores ! j < scores ! ?m" using at by simp
  qed
  show ?thesis using assms lt le before by (auto simp: idxmax_def)
qed

lemma choose_best_record_Some:
  assumes "grp \<noteq> []"
  shows "\<exists>m<length grp. choose_best_record grp = Some (grp ! m) \<and>
    (\<forall>j<length grp. score (grp ! j) \<le> score (grp ! m)) \<and> (\<forall>j<m. score (grp ! j) < score (grp ! m))"
proof -
  from assms have "map score grp \<noteq> []" by simp
  from idxmax_Some [OF this] obtain m where m: "idxmax (map score grp) = Some m"
    "m < length grp" "\<forall>j<length grp. map score grp ! j \<le> map score grp ! m"
    "\<forall>j<m. map score grp ! j < map score grp ! m" by auto
  then show ?thesis by (auto simp: choose_best_record_def intro!: exI [of _ m])
qed

lemma filter_nth_source:
  "m < length (filter P xs) \<Longrightarrow>
   \<exists>i<length xs. xs ! i = filter P xs ! m \<and> filter P (take i xs) = take m (filter P xs)"
proof (induction xs arbitrary: m)
  case Nil
  then show ?case by simp
next
  case (Cons x xs)
  show ?case
  proof (cases "P x")
    case False
    with Cons.prems have "m < length (filter P xs)" by simp
    from Cons.IH [OF this] obtain i where "i < length xs" "xs ! i = filter P xs ! m"
      "filter P (take i xs) = take m (filter P xs)" by blast
    with False show ?thesis by (intro exI [of _ "Suc i"]) simp
  next
    case True
    show ?thesis
    proof (cases m)
      case 0
      with True show ?thesis by (intro exI [of _ 0]) simp
    next
      case (Suc m')
      with True Cons.prems have "m' < length (filter P xs)" by simp
      from Cons.IH [OF this] obtain i where "i < length xs" "xs ! i = filter P xs ! m'"
        "filter P (take i xs) = take m' (filter P xs)" by blast
      with True Suc show ?thesis by (intro exI [of _ "Suc i"]) simp
    qed
  qed
qed

lemma map_filter_one:
  assumes "distinct ks" "k \<in> set ks"
    and "\<And>k'. k' \<in> set ks \<Longrightarrow> \<exists>r. f k' = Some r \<and> Q r k'"
    and "\<And>r a b. Q r a \<Longrightarrow> Q r b \<Longrightarrow> a = b"
    and "f k = Some b"
  shows "filter (\<lambda>r. Q r k) (List.map_filter f ks) = [b]"
  using assms(1,2,3,5)
proof (induction ks)
  case Nil
  then show ?case by simp
next
  case (Cons a ks)
  from Cons.prems(3) [of a] obtain ra where ra: "f a = Some ra" "Q ra a" by auto
  have rest: "\<And>k'. k' \<in> set ks \<Longrightarrow> \<exists>r. f k' = Some r \<and> Q r k'"
    using Cons.prems(3) by simp
  show ?case
  proof (cases "a = k")
    case True
    then have "k \<notin> set ks" using Cons.prems(1) by simp
    have none: "filter (\<lambda>r. Q r k) (List.map_filter f ks) = []"
    proof -
      have "\<forall>r\<in>set (List.map_filter f ks). \<not> Q r k"
      proof
        fix r assume "r \<in> set (List.map_filter f ks)"
        then obtain k' where k': "k' \<in> set ks" "f k' = Some r"
          by (auto simp: List.map_filter_def)
        with rest [of k'] have "Q r k'" by auto
        with assms(4) [of r k' k] k'(1) \<open>k \<notin> set ks\<close> show "\<not> Q r k" by auto
      qed
      then show ?thesis by (simp add: filter_empty_conv)
    qed
    from True ra Cons.prems(4) have "ra = b" by simp
    with True ra none show ?thesis by (simp add: List.map_filter_simps)
  next
    case False
    then have "k \<in> set ks" using Cons.prems(2) by simp
    from Cons.IH [OF _ this rest Cons.prems(4)] Cons.prems(1)
    have "filter (\<lambda>r. Q r k) (List.map_filter f ks) = [b]" by simp
    moreover have "\<not> Q ra k" using assms(4) [of ra a k] ra(2) False by auto
    ultimately show ?thesis using ra by (simp add: List.map_filter_simps)
  qed
qed

lemma group_keys_set: "set (group_keys df) = {k. Text k \<in> set (map customer.customer_id df)}"
proof -
  have "\<And>k r. (k \<in> set (case customer.customer_id r of Text k \<Rightarrow> [k] | _ \<Rightarrow> [])) = (customer.customer_id r = Text k)"
    by (auto split: cell.splits)
  then show ?thesis by (auto simp: group_keys_def)
qed

lemma group_keys_distinct: "distinct (group_keys df)"
  by (simp add: group_keys_def)

text \<open>
  C3. For every key present in the batch the deduplicator returns exactly one row with
  that key: a row of the batch with that key whose score no row with the key exceeds,
  and which every earlier row with the key scores strictly below.
\<close>

theorem dedup_one_best:
  assumes "Text k \<in> set (map customer.customer_id df)"
  shows "\<exists>i<length df. customer.customer_id (df ! i) = Text k \<and>
     filter (\<lambda>r. customer.customer_id r = Text k) (customers_dedup df) = [df ! i] \<and>
     (\<forall>j<length df. customer.customer_id (df ! j) = Text k \<longrightarrow> score (df ! j) \<le> score (df ! i)) \<and>
     (\<forall>j<i. customer.customer_id (df ! j) = Text k \<longrightarrow> score (df ! j) < score (df ! i))"
proof -
  let ?P = "\<lambda>k r. customer.customer_id r = Text k"
  let ?g = "\<lambda>k. filter (?P k) df"
  let ?f = "\<lambda>k. choose_best_record (?g k)"
  have ne: "?g k' \<noteq> []" if "k' \<in> set (group_keys df)" for k'
    using that by (auto simp: group_keys_set filter_empty_conv)
  have each: "\<exists>r. ?f k' = Some r \<and> customer.customer_id r = Text k'" if "k' \<in> set (group_keys df)" for k'
  proof -
    from choose_best_record_Some [OF ne [OF that]] obtain m where
      m: "m < length (?g k')" "?f k' = Some (?g k' ! m)" by blast
    then have "?g k' ! m \<in> set (?g k')" by (meson nth_mem)
    then have "customer.customer_id (?g k' ! m) = Text k'" by simp
    with m show ?thesis by blast
  qed
  have kin: "k \<in> set (group_keys df)" using assms by (simp add: group_keys_set)
  from choose_best_record_Some [OF ne [OF kin]] obtain m where
    m: "m < length (?g k)" "?f k = Some (?g k ! m)"
      "\<forall>j<length (?g k). score (?g k ! j) \<le> score (?g k ! m)"
      "\<forall>j<m. score (?g k ! j) < score (?g k ! m)" by blast
  from filter_nth_source [OF m(1)] obtain i where
    i: "i < length df" "df ! i = ?g k ! m" "filter (?P k) (take i df) = take m (?g k)" by blast
  have key_i: "customer.customer_id (df ! i) = Text k"
  proof -
    have "?g k ! m \<in> set (?g k)" using m(1) by (meson nth_mem)
    then show ?thesis using i(2) by simp
  qed
  have one: "filter (?P k) (customers_dedup df) = [df ! i]"
    unfolding customers_dedup_def
    using map_filter_one [OF group_keys_distinct kin, of ?f "\<lambda>r k. ?P k r" "?g k ! m"] each m(2) i(2)
    by simp
  have all_le: "\<forall>j<length df. ?P k (df ! j) \<longrightarrow> score (df ! j) \<le> score (df ! i)"
  proof (intro allI impI)
    fix j assume "j < length df" "?P k (df ! j)"
    then have "df ! j \<in> set (?g k)" by simp
    then obtain j' where "j' < length (?g k)" "?g k ! j' = df ! j" by (meson in_set_conv_nth)
    with m(3) i(2) show "score (df ! j) \<le> score (df ! i)" by metis
  qed
  have before: "\<forall>j<i. ?P k (df ! j) \<longrightarrow> score (df ! j) < score (df ! i)"
  proof (intro allI impI)
    fix j assume j: "j < i" "?P k (df ! j)"
    with i(1) have "df ! j \<in> set (take i df)" by (auto simp: in_set_conv_nth intro!: exI [of _ j])
    with j(2) have "df ! j \<in> set (filter (?P k) (take i df))" by simp
    then have "df ! j \<in> set (take m (?g k))" using i(3) by simp
    then obtain j' where j': "j' < length (take m (?g k))" "take m (?g k) ! j' = df ! j"
      by (meson in_set_conv_nth)
    then have "j' < m" "?g k ! j' = df ! j" by simp_all
    with m(4) i(2) show "score (df ! j) < score (df ! i)" by metis
  qed
  show ?thesis using i(1) key_i one all_le before by blast
qed


theorem dedup_one_best_witness:
  "Text ''C2'' \<in> set (map customer.customer_id dup_batch) \<and>
   (\<exists>i<length dup_batch. customer.customer_id (dup_batch ! i) = Text ''C2'' \<and>
      filter (\<lambda>r. customer.customer_id r = Text ''C2'') (customers_dedup dup_batch)
        = [dup_batch ! i] \<and>
      (\<forall>j<length dup_batch. customer.customer_id (dup_batch ! j) = Text ''C2'' \<longrightarrow>
         score (dup_batch ! j) \<le> score (dup_batch ! i)) \<and>
      (\<forall>j<i. customer.customer_id (dup_batch ! j) = Text ''C2'' \<longrightarrow>
         score (dup_batch ! j) < score (dup_batch ! i)))"
proof -
  have h: "Text ''C2'' \<in> set (map customer.customer_id dup_batch)"
    by (simp add: dup_batch_def)
  from h dedup_one_best [OF h] show ?thesis by (rule conjI)
qed

section \<open>The two duplicate-resolution policies compared\<close>

lemma find_filter_hd:
  "find P xs = (case filter P xs of [] \<Rightarrow> None | x # _ \<Rightarrow> Some x)"
  by (induction xs) auto

lemma ddf_set:
  "r \<in> set (drop_duplicates_first seen df) \<longleftrightarrow>
     customer.customer_id r \<notin> set seen \<and>
     find (\<lambda>x. customer.customer_id x = customer.customer_id r) df = Some r"
proof (induction df arbitrary: seen)
  case Nil
  then show ?case by simp
next
  case (Cons a df)
  show ?case
  proof (cases "customer.customer_id a \<in> set seen")
    case True
    then show ?thesis using Cons.IH [of seen] by auto
  next
    case False
    then show ?thesis using Cons.IH [of "customer.customer_id a # seen"] by auto
  qed
qed

lemma ddf_keys_distinct:
  "distinct (map customer.customer_id (drop_duplicates_first seen df)) \<and>
   set (map customer.customer_id (drop_duplicates_first seen df)) \<inter> set seen = {}"
proof (induction df arbitrary: seen)
  case Nil
  then show ?case by simp
next
  case (Cons a df)
  show ?case
  proof (cases "customer.customer_id a \<in> set seen")
    case True
    then show ?thesis using Cons.IH [of seen] by simp
  next
    case False
    then show ?thesis using Cons.IH [of "customer.customer_id a # seen"] by auto
  qed
qed

lemma keep_first_distinct: "distinct (customers_keep_first df)"
  using ddf_keys_distinct [of "[]" df] by (simp add: customers_keep_first_def distinct_map)

lemma map_filter_keys_distinct:
  assumes "distinct ks"
    and "\<And>k r. k \<in> set ks \<Longrightarrow> f k = Some r \<Longrightarrow> key r = Text k"
  shows "distinct (map key (List.map_filter f ks))"
  using assms
proof (induction ks)
  case Nil
  then show ?case by simp
next
  case (Cons a ks)
  have IH: "distinct (map key (List.map_filter f ks))"
    using Cons by simp
  show ?case
  proof (cases "f a")
    case None
    then show ?thesis using IH by simp
  next
    case (Some r)
    have "key r = Text a" using Cons.prems(2) [of a r] Some by simp
    moreover have "Text a \<notin> set (map key (List.map_filter f ks))"
    proof
      assume "Text a \<in> set (map key (List.map_filter f ks))"
      then obtain r' k' where "k' \<in> set ks" "f k' = Some r'" "key r' = Text a"
        by (auto simp: List.map_filter_def)
      with Cons.prems(2) [of k' r'] have "k' = a" by simp
      with \<open>k' \<in> set ks\<close> Cons.prems(1) show False by simp
    qed
    ultimately show ?thesis using IH Some by simp
  qed
qed


lemma dedup_distinct: "distinct (customers_dedup df)"
proof -
  let ?f = "\<lambda>k. choose_best_record (filter (\<lambda>r. customer.customer_id r = Text k) df)"
  have key: "customer.customer_id r = Text k" if "?f k = Some r" for k r
  proof -
    let ?g = "filter (\<lambda>r. customer.customer_id r = Text k) df"
    from that have ne: "?g \<noteq> []"
      by (auto simp: choose_best_record_def idxmax_def split: if_splits)
    from choose_best_record_Some [OF ne] that obtain m where "m < length ?g" "r = ?g ! m"
      by auto
    then have "r \<in> set ?g" by (metis nth_mem)
    then show ?thesis by simp
  qed
  have "distinct (map customer.customer_id (List.map_filter ?f (group_keys df)))"
    by (rule map_filter_keys_distinct [OF group_keys_distinct]) (rule key)
  then show ?thesis by (simp add: customers_dedup_def distinct_map)
qed

lemma set_map_filter_iff:
  "r \<in> set (List.map_filter f ks) \<longleftrightarrow> (\<exists>k\<in>set ks. f k = Some r)"
  by (induction ks) (auto split: option.splits)

lemma dedup_set:
  "r \<in> set (customers_dedup df) \<longleftrightarrow>
     (\<exists>k. Text k \<in> set (map customer.customer_id df) \<and>
        choose_best_record (filter (\<lambda>x. customer.customer_id x = Text k) df) = Some r)"
  by (auto simp: customers_dedup_def set_map_filter_iff group_keys_set)

lemma keep_first_set:
  "r \<in> set (customers_keep_first df) \<longleftrightarrow>
     find (\<lambda>x. customer.customer_id x = customer.customer_id r) df = Some r"
  by (simp add: customers_keep_first_def ddf_set)

lemma first_is_best_iff:
  "first_is_best df \<longleftrightarrow>
     (\<forall>r\<in>set df. \<forall>f. find (\<lambda>x. customer.customer_id x = customer.customer_id r) df = Some f
        \<longrightarrow> score r \<le> score f)"
  by (auto simp: first_is_best_def list_all_iff split: option.splits)

lemma best_is_first:
  assumes fb: "first_is_best df" and k: "Text k \<in> set (map customer.customer_id df)"
  shows "choose_best_record (filter (\<lambda>x. customer.customer_id x = Text k) df)
     = find (\<lambda>x. customer.customer_id x = Text k) df"
proof -
  let ?g = "filter (\<lambda>x. customer.customer_id x = Text k) df"
  from k have ne: "?g \<noteq> []" by (auto simp: filter_empty_conv)
  then obtain f rest where g: "?g = f # rest" by (cases ?g) auto
  have fnd: "find (\<lambda>x. customer.customer_id x = Text k) df = Some f"
    by (simp add: find_filter_hd g)
  from choose_best_record_Some [OF ne] obtain m where m: "m < length ?g"
    "choose_best_record ?g = Some (?g ! m)" "\<forall>j<m. score (?g ! j) < score (?g ! m)" by blast
  have gm: "?g ! m \<in> set ?g" using m(1) by (metis nth_mem)
  then have "?g ! m \<in> set df" "customer.customer_id (?g ! m) = Text k" by simp_all
  with fb fnd have le: "score (?g ! m) \<le> score f"
    by (simp add: first_is_best_iff)
  have "m = 0"
  proof (rule ccontr)
    assume "m \<noteq> 0"
    then have "0 < m" by simp
    with m(3) have "score (?g ! 0) < score (?g ! m)" by blast
    with le g show False by simp
  qed
  with m(2) g fnd show ?thesis by simp
qed

text \<open>
  C10, as amended. On a cleaned batch (every key a string, as both scripts make it) the
  most-complete-wins reduction of ex5 and the keep-first reduction of ex6 return the same
  records exactly when every row scores no more than the first row with its key. ex5
  returns them in ascending key order, ex6 in order of first occurrence, so the
  comparison is of the records with their multiplicities.
\<close>

theorem dedup_policies_agree_iff:
  assumes "all_keys_text df"
  shows "mset (customers_dedup df) = mset (customers_keep_first df) \<longleftrightarrow> first_is_best df"
proof -
  have is_text: "\<exists>k. customer.customer_id r = Text k" if "r \<in> set df" for r
    using assms that by (cases "customer.customer_id r") (auto simp: all_keys_text_def list_all_iff)
  have msets: "mset (customers_dedup df) = mset (customers_keep_first df) \<longleftrightarrow>
      set (customers_dedup df) = set (customers_keep_first df)"
    using set_eq_iff_mset_eq_distinct [OF dedup_distinct keep_first_distinct] by simp
  have "set (customers_dedup df) = set (customers_keep_first df) \<longleftrightarrow> first_is_best df"
  proof
    assume fb: "first_is_best df"
    show "set (customers_dedup df) = set (customers_keep_first df)"
    proof (intro set_eqI iffI)
      fix r assume "r \<in> set (customers_dedup df)"
      then obtain k where k: "Text k \<in> set (map customer.customer_id df)"
        "choose_best_record (filter (\<lambda>x. customer.customer_id x = Text k) df) = Some r"
        by (auto simp: dedup_set)
      with best_is_first [OF fb k(1)] have f: "find (\<lambda>x. customer.customer_id x = Text k) df = Some r"
        by simp
      then have "customer.customer_id r = Text k" by (auto simp: find_Some_iff)
      with f show "r \<in> set (customers_keep_first df)" by (simp add: keep_first_set)
    next
      fix r assume "r \<in> set (customers_keep_first df)"
      then have f: "find (\<lambda>x. customer.customer_id x = customer.customer_id r) df = Some r"
        by (simp add: keep_first_set)
      then have rin: "r \<in> set df" by (auto simp: find_Some_iff)
      from is_text [OF rin] obtain k where k: "customer.customer_id r = Text k" by blast
      with rin have kin: "Text k \<in> set (map customer.customer_id df)" by force
      from best_is_first [OF fb kin] f k
      have "choose_best_record (filter (\<lambda>x. customer.customer_id x = Text k) df) = Some r"
        by simp
      with kin show "r \<in> set (customers_dedup df)"
        unfolding dedup_set by blast
    qed
  next
    assume eq: "set (customers_dedup df) = set (customers_keep_first df)"
    show "first_is_best df"
      unfolding first_is_best_iff
    proof (intro ballI allI impI)
      fix r f assume rin: "r \<in> set df"
        and f: "find (\<lambda>x. customer.customer_id x = customer.customer_id r) df = Some f"
      from is_text [OF rin] obtain k where k: "customer.customer_id r = Text k" by blast
      let ?g = "filter (\<lambda>x. customer.customer_id x = Text k) df"
      from rin k have rg: "r \<in> set ?g" by simp
      then have ne: "?g \<noteq> []" by (metis empty_iff list.set(1))
      from choose_best_record_Some [OF ne] obtain m where m: "m < length ?g"
        "choose_best_record ?g = Some (?g ! m)"
        "\<forall>j<length ?g. score (?g ! j) \<le> score (?g ! m)" by blast
      have gm: "?g ! m \<in> set ?g" using m(1) by (metis nth_mem)
      then have gk: "customer.customer_id (?g ! m) = Text k" by simp
      from rin k have kin: "Text k \<in> set (map customer.customer_id df)" by force
      with m(2) have "?g ! m \<in> set (customers_dedup df)" by (auto simp: dedup_set)
      with eq have "?g ! m \<in> set (customers_keep_first df)" by simp
      then have "find (\<lambda>x. customer.customer_id x = Text k) df = Some (?g ! m)"
        using gk by (simp add: keep_first_set)
      with f k have "f = ?g ! m" by simp
      moreover from rg obtain j where "j < length ?g" "?g ! j = r" by (meson in_set_conv_nth)
      ultimately show "score r \<le> score f" using m(3) by auto
    qed
  qed
  with msets show ?thesis by simp
qed

theorem dedup_policies_agree_iff_witness:
  "all_keys_text agree_batch \<and> first_is_best agree_batch \<and>
   mset (customers_dedup agree_batch) = mset (customers_keep_first agree_batch)"
proof -
  have h: "all_keys_text agree_batch" by (simp add: all_keys_text_def agree_batch_def)
  have fb: "first_is_best agree_batch"
    by (simp add: first_is_best_def agree_batch_def score_def)
  from dedup_policies_agree_iff [OF h] fb h show ?thesis by simp
qed

text \<open>
  The claim as stated fails: on \<open>dup_batch\<close> ex5 keeps the second row of C2 (two
  non-null fields), ex6 the first (one).
\<close>

theorem dedup_policies_differ:
  "set (customers_dedup dup_batch) \<noteq> set (customers_keep_first dup_batch)"
  by (simp add: customers_dedup_def customers_keep_first_def group_keys_def
      choose_best_record_def idxmax_def score_def dup_batch_def List.map_filter_def
      doubleton_eq_iff)

section \<open>Properties of the incremental loader\<close>

lemma get_last_watermark_update_state [simp]:
  "get_last_watermark (update_state wm n now db) = wm"
  by (simp add: get_last_watermark_def update_state_def)

lemma ex_3_sales_update_state [simp]:
  "ex_3_sales (update_state wm n now db) = ex_3_sales db"
  by (simp add: update_state_def)

lemma upsert_stage_Nil [simp]: "upsert_stage [] sink = sink"
  by (simp add: upsert_stage_def)

lemma incremental_batch_sorted: "sorted (map sale.transaction_date (incremental_batch last_wm sales_clean))"
  by (simp add: incremental_batch_def)

lemma incremental_batch_mset:
  "mset (incremental_batch last_wm sales_clean) =
     mset (case last_wm of None \<Rightarrow> sales_clean
           | Some wm \<Rightarrow> filter (\<lambda>s. wm < sale.transaction_date s) sales_clean)"
  by (simp add: incremental_batch_def)

lemma incremental_batch_set:
  "set (incremental_batch last_wm sales_clean) =
     (case last_wm of None \<Rightarrow> set sales_clean
      | Some wm \<Rightarrow> {s \<in> set sales_clean. wm < sale.transaction_date s})"
  by (simp add: incremental_batch_def split: option.splits)

lemma load_sink:
  "ex_3_sales (load_incremental_sales sales_clean now db) =
     upsert_stage (incremental_batch (get_last_watermark db) sales_clean) (ex_3_sales db)"
  by (simp add: load_incremental_sales_def Let_def)

lemma load_watermark:
  "get_last_watermark (load_incremental_sales sales_clean now db) =
     (let batch = incremental_batch (get_last_watermark db) sales_clean
      in if batch = [] then get_last_watermark db
         else Some (Max (set (map sale.transaction_date batch))))"
  by (simp add: load_incremental_sales_def Let_def)

lemmas loader_eval = load_incremental_sales_def get_last_watermark_def incremental_batch_def
  update_state_def upsert_stage_def empty_db_def first_batch_def second_batch_def mk_sale_def

lemma load_watermark_mono:
  "get_last_watermark db \<le> get_last_watermark (load_incremental_sales sales_clean now db)"
proof (cases "get_last_watermark db")
  case None
  then show ?thesis by simp
next
  case (Some wm)
  let ?batch = "incremental_batch (Some wm) sales_clean"
  show ?thesis
  proof (cases "?batch = []")
    case True
    with Some show ?thesis by (simp add: load_watermark)
  next
    case False
    then obtain s where s: "s \<in> set ?batch" by (cases ?batch) auto
    then have "wm < sale.transaction_date s" by (simp add: incremental_batch_set)
    moreover have "sale.transaction_date s \<le> Max (set (map sale.transaction_date ?batch))"
      using s by (simp add: Max_ge)
    ultimately have "wm \<le> Max (set (map sale.transaction_date ?batch))" by simp
    with Some False show ?thesis by (simp add: load_watermark)
  qed
qed

lemma run_pipeline_mono:
  "get_last_watermark db \<le> get_last_watermark (run_pipeline runs db)"
proof (induction runs arbitrary: db)
  case Nil
  then show ?case by simp
next
  case (Cons run runs)
  obtain sales_clean now where run: "run = (sales_clean, now)" by (cases run)
  have "get_last_watermark db \<le> get_last_watermark (load_incremental_sales sales_clean now db)"
    by (rule load_watermark_mono)
  also have "\<dots> \<le> get_last_watermark (run_pipeline runs (load_incremental_sales sales_clean now db))"
    by (rule Cons.IH)
  finally show ?case by (simp add: run)
qed

lemma upsert_stage_ids:
  "mset stage' = mset stage \<Longrightarrow>
   filter (\<lambda>s. sale.transaction_id s \<notin> set (filter notna (map sale.transaction_id stage'))) sink =
   filter (\<lambda>s. sale.transaction_id s \<notin> set (filter notna (map sale.transaction_id stage))) sink"
proof -
  assume "mset stage' = mset stage"
  then have "set stage' = set stage" by (rule mset_eq_setD)
  then have "set (filter notna (map sale.transaction_id stage')) =
      set (filter notna (map sale.transaction_id stage))"
    by simp
  then show ?thesis by simp
qed

text \<open>
  C2. One run of the loader. With no stored watermark the batch to load is the whole
  cleaned batch and, when that batch has a row, the new watermark is the maximal date in
  it. With a stored watermark the batch to load is exactly the rows dated strictly after
  it. In both cases the batch is in ascending date order, and the run loads it: the sink
  afterwards is its old rows, those apart that carry a transaction id of the batch,
  followed by the rows of the batch in ascending date order; so every row of the batch
  is in the sink.
\<close>

theorem load_incremental_sales_step:
  "(get_last_watermark db = None \<longrightarrow>
      mset (incremental_batch (get_last_watermark db) sales_clean) = mset sales_clean \<and>
      (sales_clean \<noteq> [] \<longrightarrow>
         get_last_watermark (load_incremental_sales sales_clean now db) =
           Some (Max (set (map sale.transaction_date sales_clean))))) \<and>
   (\<forall>wm. get_last_watermark db = Some wm \<longrightarrow>
      mset (incremental_batch (get_last_watermark db) sales_clean) =
        mset (filter (\<lambda>s. wm < sale.transaction_date s) sales_clean)) \<and>
   sorted (map sale.transaction_date (incremental_batch (get_last_watermark db) sales_clean)) \<and>
   (\<exists>loaded.
      mset loaded =
        mset (case get_last_watermark db of
                None \<Rightarrow> sales_clean
              | Some wm \<Rightarrow> filter (\<lambda>s. wm < sale.transaction_date s) sales_clean) \<and>
      sorted (map sale.transaction_date loaded) \<and>
      ex_3_sales (load_incremental_sales sales_clean now db) =
        filter (\<lambda>s. sale.transaction_id s \<notin>
                  set (filter notna (map sale.transaction_id
                    (case get_last_watermark db of
                       None \<Rightarrow> sales_clean
                     | Some wm \<Rightarrow> filter (\<lambda>s. wm < sale.transaction_date s) sales_clean))))
          (ex_3_sales db) @ loaded) \<and>
   set (case get_last_watermark db of
          None \<Rightarrow> sales_clean
        | Some wm \<Rightarrow> filter (\<lambda>s. wm < sale.transaction_date s) sales_clean)
     \<subseteq> set (ex_3_sales (load_incremental_sales sales_clean now db))"
proof -
  let ?wm = "get_last_watermark db"
  let ?sel = "case ?wm of None \<Rightarrow> sales_clean
    | Some wm \<Rightarrow> filter (\<lambda>s. wm < sale.transaction_date s) sales_clean"
  let ?batch = "incremental_batch ?wm sales_clean"
  let ?db' = "load_incremental_sales sales_clean now db"
  have ms: "mset ?batch = mset ?sel" by (rule incremental_batch_mset)
  have srt: "sorted (map sale.transaction_date ?batch)" by (rule incremental_batch_sorted)
  have sink: "ex_3_sales ?db' =
      filter (\<lambda>s. sale.transaction_id s \<notin> set (filter notna (map sale.transaction_id ?sel)))
        (ex_3_sales db) @ ?batch"
    unfolding load_sink upsert_stage_def by (simp only: upsert_stage_ids [OF ms])
  have none: "mset ?batch = mset sales_clean \<and>
      (sales_clean \<noteq> [] \<longrightarrow>
         get_last_watermark ?db' = Some (Max (set (map sale.transaction_date sales_clean))))"
    if n: "?wm = None"
  proof
    from ms n show m: "mset ?batch = mset sales_clean" by simp
    show "sales_clean \<noteq> [] \<longrightarrow>
        get_last_watermark ?db' = Some (Max (set (map sale.transaction_date sales_clean)))"
    proof
      assume "sales_clean \<noteq> []"
      with m have ne: "?batch \<noteq> []" by (metis mset_zero_iff)
      from m have "set ?batch = set sales_clean" by (rule mset_eq_setD)
      then have "set (map sale.transaction_date ?batch) =
          set (map sale.transaction_date sales_clean)"
        by simp
      with ne show "get_last_watermark ?db' =
          Some (Max (set (map sale.transaction_date sales_clean)))"
        by (simp only: load_watermark Let_def if_False)
    qed
  qed
  have some: "mset ?batch = mset (filter (\<lambda>s. wm < sale.transaction_date s) sales_clean)"
    if "?wm = Some wm" for wm
    using ms that by simp
  have ex: "\<exists>loaded. mset loaded = mset ?sel \<and> sorted (map sale.transaction_date loaded) \<and>
      ex_3_sales ?db' =
        filter (\<lambda>s. sale.transaction_id s \<notin> set (filter notna (map sale.transaction_id ?sel)))
          (ex_3_sales db) @ loaded"
    using ms srt sink by blast
  have sub: "set ?sel \<subseteq> set (ex_3_sales ?db')"
  proof -
    from ms have "set ?batch = set ?sel" by (rule mset_eq_setD)
    then show ?thesis unfolding sink by auto
  qed
  from none some srt ex sub show ?thesis by blast
qed

text \<open>
  C4. Over any sequence of runs the stored watermark never decreases (a null watermark
  counts as below every date); and a run whose batch to load is empty writes the state
  row with the old watermark, the run's time stamp and a row count of 0, and leaves the
  sink as it was.
\<close>

theorem watermark_monotone:
  "get_last_watermark db \<le> get_last_watermark (run_pipeline runs db) \<and>
   (\<forall>d. get_last_watermark db = Some d \<longrightarrow>
      (\<exists>d'. get_last_watermark (run_pipeline runs db) = Some d' \<and> d \<le> d')) \<and>
   (incremental_batch (get_last_watermark db) sales_clean = [] \<longrightarrow>
      ex_3_etl_state (load_incremental_sales sales_clean now db) =
        Some \<lparr>last_processed_date = get_last_watermark db, last_run_ts = now,
              last_run_rows = 0\<rparr> \<and>
      ex_3_sales (load_incremental_sales sales_clean now db) = ex_3_sales db)"
proof (intro conjI impI allI)
  show mono: "get_last_watermark db \<le> get_last_watermark (run_pipeline runs db)"
    by (rule run_pipeline_mono)
  fix d assume "get_last_watermark db = Some d"
  with mono show "\<exists>d'. get_last_watermark (run_pipeline runs db) = Some d' \<and> d \<le> d'"
    by (cases "get_last_watermark (run_pipeline runs db)") simp_all
next
  assume e: "incremental_batch (get_last_watermark db) sales_clean = []"
  then show "ex_3_etl_state (load_incremental_sales sales_clean now db) =
      Some \<lparr>last_processed_date = get_last_watermark db, last_run_ts = now,
            last_run_rows = 0\<rparr>"
    by (simp add: load_incremental_sales_def Let_def update_state_def)
  from e show "ex_3_sales (load_incremental_sales sales_clean now db) = ex_3_sales db"
    by (simp add: load_sink)
qed


theorem load_incremental_sales_step_witness:
  "get_last_watermark empty_db = None \<and> first_batch \<noteq> [] \<and>
   get_last_watermark (load_incremental_sales first_batch 100 empty_db) = Some 20 \<and>
   ex_3_sales (load_incremental_sales first_batch 100 empty_db) =
     [mk_sale ''T000001'' 10, mk_sale ''T000002'' 20] \<and>
   mset (incremental_batch
          (get_last_watermark (load_incremental_sales first_batch 100 empty_db)) second_batch)
     = {#mk_sale ''T000004'' 22, mk_sale ''T000003'' 21#} \<and>
   mk_sale ''T000004'' 22 \<in> set (ex_3_sales (load_incremental_sales second_batch 200
     (load_incremental_sales first_batch 100 empty_db))) \<and>
   ex_3_sales (load_incremental_sales second_batch 200
     (load_incremental_sales first_batch 100 empty_db)) =
     [mk_sale ''T000001'' 10, mk_sale ''T000002'' 20, mk_sale ''T000003'' 21,
      mk_sale ''T000004'' 22] \<and>
   ex_3_sales (load_incremental_sales replay_batch 300
     (load_incremental_sales second_batch 200
       (load_incremental_sales first_batch 100 empty_db))) =
     [mk_sale ''T000001'' 10, mk_sale ''T000003'' 21, mk_sale ''T000004'' 22,
      mk_sale ''T000002'' 23, mk_sale ''T000005'' 25]"
proof -
  let ?db1 = "load_incremental_sales first_batch 100 empty_db"
  let ?db2 = "load_incremental_sales second_batch 200 ?db1"
  let ?db3 = "load_incremental_sales replay_batch 300 ?db2"
  have h1: "get_last_watermark empty_db = None" by (simp add: loader_eval)
  have h2: "first_batch \<noteq> []" by (simp add: first_batch_def)
  from load_incremental_sales_step [of empty_db first_batch 100] h1 h2
  have "get_last_watermark ?db1 = Some (Max (set (map sale.transaction_date first_batch)))"
    by blast
  also have "Max (set (map sale.transaction_date first_batch)) = 20"
    by (simp add: first_batch_def mk_sale_def)
  finally have w1: "get_last_watermark ?db1 = Some 20" .
  from load_incremental_sales_step [of ?db1 second_batch 200] w1
  have "mset (incremental_batch (get_last_watermark ?db1) second_batch) =
      mset (filter (\<lambda>s. 20 < sale.transaction_date s) second_batch)"
    by blast
  also have "\<dots> = {#mk_sale ''T000004'' 22, mk_sale ''T000003'' 21#}"
    by (simp add: second_batch_def first_batch_def mk_sale_def)
  finally have b2: "mset (incremental_batch (get_last_watermark ?db1) second_batch) =
      {#mk_sale ''T000004'' 22, mk_sale ''T000003'' 21#}" .
  from load_incremental_sales_step [of ?db1 second_batch 200]
  have "set (case get_last_watermark ?db1 of None \<Rightarrow> second_batch
      | Some wm \<Rightarrow> filter (\<lambda>s. wm < sale.transaction_date s) second_batch)
      \<subseteq> set (ex_3_sales ?db2)"
    by blast
  moreover have "mk_sale ''T000004'' 22 \<in> set (case get_last_watermark ?db1 of
      None \<Rightarrow> second_batch
      | Some wm \<Rightarrow> filter (\<lambda>s. wm < sale.transaction_date s) second_batch)"
    unfolding w1 by (simp add: second_batch_def first_batch_def mk_sale_def)
  ultimately have in2: "mk_sale ''T000004'' 22 \<in> set (ex_3_sales ?db2)" by blast
  have s1: "ex_3_sales ?db1 = [mk_sale ''T000001'' 10, mk_sale ''T000002'' 20]"
    by (simp add: loader_eval Let_def)
  have s2: "ex_3_sales ?db2 = [mk_sale ''T000001'' 10, mk_sale ''T000002'' 20,
      mk_sale ''T000003'' 21, mk_sale ''T000004'' 22]"
    by (simp add: loader_eval Let_def)
  have s3: "ex_3_sales ?db3 = [mk_sale ''T000001'' 10, mk_sale ''T000003'' 21,
      mk_sale ''T000004'' 22, mk_sale ''T000002'' 23, mk_sale ''T000005'' 25]"
    by (simp add: loader_eval replay_batch_def Let_def)
  from h1 h2 w1 s1 b2 in2 s2 s3 show ?thesis by blast
qed

theorem watermark_monotone_witness:
  "get_last_watermark (run_pipeline [(first_batch, 100), (second_batch, 200)] empty_db) = Some 22 \<and>
   incremental_batch (Some 22) second_batch = [] \<and>
   (\<exists>d'. get_last_watermark
      (run_pipeline [(second_batch, 300)]
        (run_pipeline [(first_batch, 100), (second_batch, 200)] empty_db)) = Some d' \<and> 22 \<le> d') \<and>
   ex_3_etl_state (load_incremental_sales second_batch 300
      (run_pipeline [(first_batch, 100), (second_batch, 200)] empty_db)) =
     Some \<lparr>last_processed_date = Some 22, last_run_ts = 300, last_run_rows = 0\<rparr>"
proof -
  let ?db2 = "run_pipeline [(first_batch, 100), (second_batch, 200)] empty_db"
  have w2: "get_last_watermark ?db2 = Some 22" by (simp add: loader_eval Let_def)
  have e: "incremental_batch (Some 22) second_batch = []" by (simp add: loader_eval)
  from watermark_monotone [of ?db2 "[(second_batch, 300)]" second_batch 300] w2 e
  show ?thesis by simp
qed

section \<open>Properties of the fetcher\<close>

lemma fetch_loop_done:
  "\<not> attempt < MAX_RETRIES \<Longrightarrow>
   fetch_loop pd net attempt reqs slept = \<lparr>outcome = Frame [], requests = reqs, sleeps = slept\<rparr>"
  by (subst fetch_loop.simps) simp

lemma fetch_loop_timeout:
  "attempt < MAX_RETRIES \<Longrightarrow> net reqs = Timeout \<Longrightarrow>
   fetch_loop pd net attempt reqs slept =
     fetch_loop pd net (attempt + 1) (reqs + 1) (slept @ [BACKOFF_FACTOR ^ (attempt + 1)])"
  by (subst fetch_loop.simps) simp

lemma fetch_loop_request_exception:
  "attempt < MAX_RETRIES \<Longrightarrow> net reqs = RequestException \<Longrightarrow>
   fetch_loop pd net attempt reqs slept = \<lparr>outcome = Frame [], requests = reqs + 1, sleeps = slept\<rparr>"
  by (subst fetch_loop.simps) simp

lemma fetch_loop_status_last:
  "attempt < MAX_RETRIES \<Longrightarrow> net reqs = Http status_code body \<Longrightarrow> status_code \<noteq> 200 \<Longrightarrow>
   MAX_RETRIES \<le> attempt + 1 \<Longrightarrow>
   fetch_loop pd net attempt reqs slept = \<lparr>outcome = Frame [], requests = reqs + 1, sleeps = slept\<rparr>"
  by (subst fetch_loop.simps) simp

lemma fetch_loop_status_retry:
  "attempt < MAX_RETRIES \<Longrightarrow> net reqs = Http status_code body \<Longrightarrow> status_code \<noteq> 200 \<Longrightarrow>
   \<not> MAX_RETRIES \<le> attempt + 1 \<Longrightarrow>
   fetch_loop pd net attempt reqs slept =
     fetch_loop pd net (attempt + 1) (reqs + 1) (slept @ [BACKOFF_FACTOR ^ (attempt + 1)])"
  by (subst fetch_loop.simps) simp

lemma fetch_loop_ok:
  "attempt < MAX_RETRIES \<Longrightarrow> net reqs = Http 200 body \<Longrightarrow>
   fetch_loop pd net attempt reqs slept =
     \<lparr>outcome =
        (case body of
           Array data \<Rightarrow> normalize_array pd data
         | TooDeep \<Rightarrow> Raises RecursionError
         | _ \<Rightarrow> Frame []),
      requests = reqs + 1, sleeps = slept\<rparr>"
  by (subst fetch_loop.simps) (simp split: json_body.splits)

lemma backoff_sum_split:
  "attempt < MAX_RETRIES \<Longrightarrow>
   (\<Sum>a = attempt + 1..MAX_RETRIES. BACKOFF_FACTOR ^ a) =
     BACKOFF_FACTOR ^ (attempt + 1) + (\<Sum>a = attempt + 1 + 1..MAX_RETRIES. BACKOFF_FACTOR ^ a)"
  by (simp add: sum.atLeast_Suc_atMost)

lemma retry_step_bounds:
  fixes res :: fetch_result
  assumes lt: "attempt < MAX_RETRIES"
    and ih: "requests res \<le> reqs + 1 + (MAX_RETRIES - (attempt + 1)) \<and>
      sum_list (sleeps res) \<le> sum_list (slept @ [BACKOFF_FACTOR ^ (attempt + 1)]) +
        (\<Sum>a = attempt + 1 + 1..MAX_RETRIES. BACKOFF_FACTOR ^ a)"
  shows "requests res \<le> reqs + (MAX_RETRIES - attempt) \<and>
    sum_list (sleeps res) \<le> sum_list slept + (\<Sum>a = attempt + 1..MAX_RETRIES. BACKOFF_FACTOR ^ a)"
proof
  from ih lt show "requests res \<le> reqs + (MAX_RETRIES - attempt)" by arith
  have "sum_list (sleeps res) \<le> sum_list slept + (BACKOFF_FACTOR ^ (attempt + 1) +
      (\<Sum>a = attempt + 1 + 1..MAX_RETRIES. BACKOFF_FACTOR ^ a))"
    using ih by simp
  then show "sum_list (sleeps res) \<le>
      sum_list slept + (\<Sum>a = attempt + 1..MAX_RETRIES. BACKOFF_FACTOR ^ a)"
    by (simp only: backoff_sum_split [OF lt])
qed

lemma fetch_loop_bounds:
  "attempt \<le> MAX_RETRIES \<Longrightarrow>
   requests (fetch_loop pd net attempt reqs slept) \<le> reqs + (MAX_RETRIES - attempt) \<and>
   sum_list (sleeps (fetch_loop pd net attempt reqs slept)) \<le>
     sum_list slept + (\<Sum>a = attempt + 1..MAX_RETRIES. BACKOFF_FACTOR ^ a)"
proof (induction pd net attempt reqs slept rule: fetch_loop.induct)
  case (1 pd net attempt reqs slept)
  show ?case
  proof (cases "attempt < MAX_RETRIES")
    case False
    then show ?thesis by (simp add: fetch_loop_done)
  next
    case True
    then have le: "attempt + 1 \<le> MAX_RETRIES" by simp
    show ?thesis
    proof (cases "net reqs")
      case Timeout
      have eq: "fetch_loop pd net attempt reqs slept =
          fetch_loop pd net (attempt + 1) (reqs + 1) (slept @ [BACKOFF_FACTOR ^ (attempt + 1)])"
        using True Timeout by (rule fetch_loop_timeout)
      show ?thesis unfolding eq
        by (rule retry_step_bounds [OF True "1.IH"(1) [OF True Timeout le]])
    next
      case RequestException
      then show ?thesis using True by (simp add: fetch_loop_request_exception)
    next
      case (Http status_code body)
      show ?thesis
      proof (cases "status_code = 200")
        case ok: True
        with Http True show ?thesis by (simp add: fetch_loop_ok)
      next
        case bad: False
        show ?thesis
        proof (cases "MAX_RETRIES \<le> attempt + 1")
          case last: True
          from True Http bad last show ?thesis by (simp add: fetch_loop_status_last)
        next
          case more: False
          have eq: "fetch_loop pd net attempt reqs slept =
              fetch_loop pd net (attempt + 1) (reqs + 1)
                (slept @ [BACKOFF_FACTOR ^ (attempt + 1)])"
            using True Http bad more by (rule fetch_loop_status_retry)
          show ?thesis unfolding eq
            by (rule retry_step_bounds [OF True "1.IH"(2) [OF True Http bad more le]])
        qed
      qed
    qed
  qed
qed

text \<open>
  C6. Whatever the network answers, a run makes at most \<open>MAX_RETRIES\<close> requests, and the
  waits it sleeps add up to at most the sum of \<open>BACKOFF_FACTOR ^ attempt\<close> over the
  attempts 1 to \<open>MAX_RETRIES\<close>. The run always ends, with a frame or with an exception
  that follows its last request: \<open>fetch_loop\<close> is a total function, its measure
  \<open>MAX_RETRIES - attempt\<close> falling at every retry.
\<close>

theorem fetch_retry_bound:
  "requests (fetch_all_product_metadata pd net) \<le> MAX_RETRIES \<and>
   sum_list (sleeps (fetch_all_product_metadata pd net)) \<le>
     (\<Sum>a = 1..MAX_RETRIES. BACKOFF_FACTOR ^ a)"
  using fetch_loop_bounds [of 0 pd net 0 "[]"] by (simp add: fetch_all_product_metadata_def)


















section \<open>Properties of the enricher\<close>

lemma truncate_add_columns [simp]: "product.truncate (add_columns p d r a) = p"
  by (simp add: add_columns_def product.extend_def product.truncate_def)

lemma add_columns_sel [simp]:
  "enriched_product.description (add_columns p d r a) = d"
  "enriched_product.rating (add_columns p d r a) = r"
  "enriched_product.availability_status (add_columns p d r a) = a"
  "product.product_id (add_columns p d r a) = product.product_id p"
  by (simp_all add: add_columns_def product.extend_def enriched_product.fields_def)

lemma fill_defaults_null:
  "fill_defaults (add_columns p NA FNaN NA) =
     add_columns p (Text ''No description available.'') FNaN (Text ''Unknown'')"
  by (simp add: fill_defaults_def add_columns_def product.extend_def enriched_product.fields_def)

lemma fill_defaults_product_id [simp]:
  "product.product_id (fill_defaults e) = product.product_id e"
  by (simp add: fill_defaults_def)

lemma merge_left_unmatched:
  assumes "p \<in> set products_df"
    and "product.product_id p \<notin> set (map metadata.product_id api_df)"
  shows "add_columns p NA FNaN NA \<in> set (merge_left products_df api_df)"
proof -
  from assms(2) have "filter (\<lambda>m. metadata.product_id m = product.product_id p) api_df = []"
    by (auto simp: filter_empty_conv image_iff)
  with assms(1) show ?thesis by (force simp: merge_left_def Let_def)
qed

lemma merge_left_rows:
  assumes "e \<in> set (merge_left products_df api_df)"
  shows "e = add_columns (product.truncate e) NA FNaN NA \<and>
           product.product_id e \<notin> set (map metadata.product_id api_df) \<or>
         product.product_id e \<in> set (map metadata.product_id api_df)"
proof -
  from assms obtain p where p: "p \<in> set products_df"
    and e: "e \<in> set (let matches = filter (\<lambda>m. metadata.product_id m = product.product_id p) api_df
       in if matches = [] then [add_columns p NA FNaN NA]
          else map (\<lambda>m. add_columns p (metadata.description m) (metadata.rating m)
                          (metadata.availability_status m)) matches)"
    by (auto simp: merge_left_def)
  show ?thesis
  proof (cases "filter (\<lambda>m. metadata.product_id m = product.product_id p) api_df = []")
    case True
    with e have "e = add_columns p NA FNaN NA" by simp
    then show ?thesis by auto
  next
    case False
    then obtain m where "m \<in> set api_df" "metadata.product_id m = product.product_id p"
      by (auto simp: filter_empty_conv)
    moreover from e False have "product.product_id e = product.product_id p" by auto
    ultimately show ?thesis by force
  qed
qed

text \<open>
  C5, as amended. When the fetch result is empty the enricher returns the products with
  all three added columns null. When it is not empty, every product whose key has no
  metadata row is in the output with the placeholder description, availability
  \<open>Unknown\<close> and a null rating, and every output row with such a key has these values.
\<close>

theorem enrich_defaults:
  "(api_df = [] \<longrightarrow>
      enrich_products_with_api products_df api_df =
        map (\<lambda>p. add_columns p NA FNaN NA) products_df \<and>
      list_all all_null (enrich_products_with_api products_df api_df)) \<and>
   (api_df \<noteq> [] \<longrightarrow>
      (\<forall>p. p \<in> set products_df \<and>
           product.product_id p \<notin> set (map metadata.product_id api_df) \<longrightarrow>
         add_columns p (Text ''No description available.'') FNaN (Text ''Unknown'')
           \<in> set (enrich_products_with_api products_df api_df)) \<and>
      (\<forall>e. e \<in> set (enrich_products_with_api products_df api_df) \<and>
           product.product_id e \<notin> set (map metadata.product_id api_df) \<longrightarrow>
         has_defaults e))"
proof (intro conjI impI allI)
  assume "api_df = []"
  then show "enrich_products_with_api products_df api_df =
      map (\<lambda>p. add_columns p NA FNaN NA) products_df"
    by (simp add: enrich_products_with_api_def)
  then show "list_all all_null (enrich_products_with_api products_df api_df)"
    by (simp add: list_all_iff all_null_def)
next
  fix p
  assume ne: "api_df \<noteq> []" and "p \<in> set products_df \<and>
      product.product_id p \<notin> set (map metadata.product_id api_df)"
  then have "add_columns p NA FNaN NA \<in> set (merge_left products_df api_df)"
    by (auto intro: merge_left_unmatched)
  then have "fill_defaults (add_columns p NA FNaN NA)
      \<in> set (map fill_defaults (merge_left products_df api_df))"
    by (simp only: set_map image_eqI)
  with ne show "add_columns p (Text ''No description available.'') FNaN (Text ''Unknown'')
      \<in> set (enrich_products_with_api products_df api_df)"
    by (simp add: enrich_products_with_api_def fill_defaults_null)
next
  fix e
  assume ne: "api_df \<noteq> []" and e: "e \<in> set (enrich_products_with_api products_df api_df) \<and>
      product.product_id e \<notin> set (map metadata.product_id api_df)"
  then obtain e0 where e0: "e0 \<in> set (merge_left products_df api_df)" "e = fill_defaults e0"
    by (auto simp: enrich_products_with_api_def)
  with e have "product.product_id e0 \<notin> set (map metadata.product_id api_df)" by simp
  with merge_left_rows [OF e0(1)] have "e0 = add_columns (product.truncate e0) NA FNaN NA"
    by blast
  then have "e = add_columns (product.truncate e0) (Text ''No description available.'') FNaN
      (Text ''Unknown'')"
    using e0(2) fill_defaults_null by metis
  then show "has_defaults e" by (simp add: has_defaults_def)
qed

theorem enrich_defaults_witness:
  "enrich_products_with_api [yoga_mat] [] = [add_columns yoga_mat NA FNaN NA] \<and>
   other_metadata \<noteq> [] \<and> yoga_mat \<in> set [yoga_mat] \<and>
   product.product_id yoga_mat \<notin> set (map metadata.product_id other_metadata) \<and>
   add_columns yoga_mat (Text ''No description available.'') FNaN (Text ''Unknown'')
     \<in> set (enrich_products_with_api [yoga_mat] other_metadata)"
proof -
  have h1: "other_metadata \<noteq> []" by (simp add: other_metadata_def)
  have h2: "yoga_mat \<in> set [yoga_mat]" by simp
  have h3: "product.product_id yoga_mat \<notin> set (map metadata.product_id other_metadata)"
    by (simp add: yoga_mat_def other_metadata_def)
  from enrich_defaults [of "[]" "[yoga_mat]"]
  have r1: "enrich_products_with_api [yoga_mat] [] = [add_columns yoga_mat NA FNaN NA]"
    by simp
  from enrich_defaults [of other_metadata "[yoga_mat]"] h1 h2 h3
  have r2: "add_columns yoga_mat (Text ''No description available.'') FNaN (Text ''Unknown'')
      \<in> set (enrich_products_with_api [yoga_mat] other_metadata)"
    by blast
  from r1 r2 h1 h2 h3 show ?thesis by blast
qed

text \<open>
  The claim as stated fails in the fetch-empty case: the one product of the batch gets a
  null description and a null availability status, not the placeholder and \<open>Unknown\<close>.
\<close>

theorem enrich_empty_fetch_no_placeholder:
  "\<not> list_all has_defaults (enrich_products_with_api [yoga_mat] [])"
  by (simp add: enrich_products_with_api_def has_defaults_def)

section \<open>The required-field checks on rows with a missing key\<close>

text \<open>
  C8 fails on the code. A product whose name is missing in the file is kept, with the
  name \<open>nan\<close>; the masks of clean_customers and clean_sales likewise pass a customer
  without an id and a sale without a product id, while a sale without a date is caught.
  The cause is one: the key columns are converted with \<open>astype(str)\<close>, which writes a
  missing value as text, before they are tested.
\<close>

theorem required_field_rows_survive:
  "clean_products pd [nameless_product] =
     [\<lparr>product.product_id = Text ''P0007'', product_name = Text ''nan'',
       category = Text ''Books'', price = FNaN\<rparr>] \<and>
   \<not> customers_crit_missing_mask keyless_customer \<and>
   \<not> sales_crit_missing_mask orphan_sale \<and>
   sales_crit_missing_mask dateless_sale"
proof (intro conjI)
  have sp: "\<not> isspace CHR ''n''" "\<not> isspace CHR ''P''" "\<not> isspace CHR ''7''"
    "\<not> isspace CHR ''B''" "\<not> isspace CHR ''S''" "\<not> isspace CHR ''A''" "\<not> isspace CHR ''T''"
    "\<not> isspace CHR ''9''" "\<not> isspace CHR ''C''" "\<not> isspace CHR ''1''" "\<not> isspace CHR ''0''"
    by (simp_all add: isspace_def)
  have low: "lower ''BOOKS'' = ''books''"
    by code_simp
  show "clean_products pd [nameless_product] =
     [\<lparr>product.product_id = Text ''P0007'', product_name = Text ''nan'',
       category = Text ''Books'', price = FNaN\<rparr>]"
    by (simp add: clean_products_def products_crit_missing_mask_def nameless_product_def
        strip_def sp canonical_category_def low CANONICAL_CATEGORIES_def)
  show "\<not> customers_crit_missing_mask keyless_customer"
    by (simp add: customers_crit_missing_mask_def keyless_customer_def strip_def sp)
  show "\<not> sales_crit_missing_mask orphan_sale"
    by (simp add: sales_crit_missing_mask_def orphan_sale_def strip_def sp)
  show "sales_crit_missing_mask dateless_sale"
    by (simp add: sales_crit_missing_mask_def dateless_sale_def strip_def sp)
qed

end
